theory Spec2Isabelle
  imports Main "HOL-Library.Sublist"
begin

section \<open>Company dashboard: selection set, status filter and status updates\<close>

text \<open>
  A shallow embedding of the application-management part of \<^verbatim>\<open>frontend/company.js\<close>
  and of the focus trap of \<^verbatim>\<open>frontend/a11y.js\<close>.

  JavaScript strings are modelled as \<^typ>\<open>string\<close>; the few non-ASCII characters of the
  source (the status icons and the check mark) are written as their UTF-8 bytes.  Strict
  equality \<^verbatim>\<open>===\<close> between strings is HOL equality.
\<close>

subsection \<open>JavaScript values, truthiness and property lookup\<close>

datatype js_value =
    JSUndefined
  | JSString string
  | JSFunction string
  | JSObject string

fun truthy :: "js_value \<Rightarrow> bool" where
  "truthy JSUndefined = False"
| "truthy (JSString s) = (s \<noteq> [])"
| "truthy (JSFunction f) = True"
| "truthy (JSObject n) = True"

text \<open>The operator \<^verbatim>\<open>a || b\<close>.\<close>

definition js_or :: "js_value \<Rightarrow> js_value \<Rightarrow> js_value" where
  "js_or a b = (if truthy a then a else b)"

text \<open>
  The members every object literal inherits from \<^verbatim>\<open>Object.prototype\<close>: a property read
  \<^verbatim>\<open>obj[key]\<close> that finds no own property continues there.
\<close>

definition object_prototype :: "(string \<times> js_value) list" where
  "object_prototype =
    [(''constructor'', JSFunction ''Object''),
     (''__defineGetter__'', JSFunction ''__defineGetter__''),
     (''__defineSetter__'', JSFunction ''__defineSetter__''),
     (''hasOwnProperty'', JSFunction ''hasOwnProperty''),
     (''__lookupGetter__'', JSFunction ''__lookupGetter__''),
     (''__lookupSetter__'', JSFunction ''__lookupSetter__''),
     (''isPrototypeOf'', JSFunction ''isPrototypeOf''),
     (''propertyIsEnumerable'', JSFunction ''propertyIsEnumerable''),
     (''toString'', JSFunction ''toString''),
     (''valueOf'', JSFunction ''valueOf''),
     (''__proto__'', JSObject ''Object.prototype''),
     (''toLocaleString'', JSFunction ''toLocaleString'')]"

definition get_property :: "(string \<times> js_value) list \<Rightarrow> string \<Rightarrow> js_value" where
  "get_property own key =
    (case map_of own key of
       Some v \<Rightarrow> v
     | None \<Rightarrow> (case map_of object_prototype key of
                  Some v \<Rightarrow> v
                | None \<Rightarrow> JSUndefined))"

subsection \<open>Decimal rendering of a number in a template literal\<close>

function string_of_nat :: "nat \<Rightarrow> string" where
  "string_of_nat n =
    (if n < 10 then [char_of (48 + n)]
     else string_of_nat (n div 10) @ [char_of (48 + n mod 10)])"
  by pat_completeness auto
termination
  by (relation "measure id") auto

subsection \<open>The built-in \<^verbatim>\<open>Set\<close>: insertion-ordered, without duplicates\<close>

definition set_add :: "'a \<Rightarrow> 'a list \<Rightarrow> 'a list" where
  "set_add x xs = (if x \<in> set xs then xs else xs @ [x])"

definition set_delete :: "'a \<Rightarrow> 'a list \<Rightarrow> 'a list" where
  "set_delete x xs = removeAll x xs"

definition set_clear :: "'a list \<Rightarrow> 'a list" where
  "set_clear xs = []"

definition set_size :: "'a list \<Rightarrow> nat" where
  "set_size xs = length xs"


subsection \<open>Module state and observable effects\<close>

text \<open>
  \<^verbatim>\<open>let selectedApplications = new Set(); let currentStatusFilter = 'all';\<close>
\<close>

record dashboard =
  selectedApplications :: "string list"
  currentStatusFilter :: string

definition initial_dashboard :: dashboard where
  "initial_dashboard = \<lparr>selectedApplications = [], currentStatusFilter = ''all''\<rparr>"

text \<open>The constants \<^verbatim>\<open>API_URL\<close> and \<^verbatim>\<open>authToken\<close> are declared outside the module.\<close>

record env =
  API_URL :: string
  authToken :: string

text \<open>The argument of a \<^verbatim>\<open>fetch\<close> call that updates one application's status.\<close>

record request =
  url :: string
  http_method :: string
  authorization :: string
  content_type :: string
  body_status :: string
  body_note :: string

datatype modal = ConfirmStatusModal string string | BulkStatusModal nat

text \<open>
  What a handler does besides changing the module state, in program order:
  a call of \<^verbatim>\<open>showNotification(message, type)\<close>, a \<^verbatim>\<open>fetch\<close> of the status
  endpoint, a call of \<^verbatim>\<open>loadCompanyApplications()\<close> (which fetches the record list
  again and rebuilds the table), appending a modal to the document, removing the modal,
  and an exception that leaves the handler uncaught.
\<close>

datatype effect =
    ShowNotification string string
  | Fetch request
  | LoadCompanyApplications
  | AppendModal modal
  | ModalRemove
  | Uncaught string

fun is_network :: "effect \<Rightarrow> bool" where
  "is_network (Fetch r) = True"
| "is_network LoadCompanyApplications = True"
| "is_network e = False"

fun is_notification :: "effect \<Rightarrow> bool" where
  "is_notification (ShowNotification m t) = True"
| "is_notification e = False"

subsection \<open>Selection handlers\<close>

text \<open>
  \<^verbatim>\<open>toggleSelectAll(checked)\<close> visits the row checkboxes of the rendered table.  Each
  entry of \<open>checkboxes\<close> is what \<^verbatim>\<open>cb.onchange.toString().match(/'([^']+)'/)\<close> yields for
  one checkbox: the first capture, or \<open>None\<close> when there is no match, in which case
  indexing the \<^verbatim>\<open>null\<close> result throws and the loop and the handler are abandoned.
\<close>

fun select_each :: "bool \<Rightarrow> string option list \<Rightarrow> string list \<Rightarrow> string list \<times> bool" where
  "select_each checked [] sel = (sel, True)"
| "select_each checked (None # cbs) sel = (sel, False)"
| "select_each checked (Some appId # cbs) sel =
    (if checked then select_each checked cbs (set_add appId sel)
     else select_each checked cbs (set_delete appId sel))"

definition toggleSelectAll :: "bool \<Rightarrow> string option list \<Rightarrow> dashboard \<Rightarrow> dashboard \<times> effect list" where
  "toggleSelectAll checked checkboxes st =
    (case select_each checked checkboxes (selectedApplications st) of
       (sel, True) \<Rightarrow> (st\<lparr>selectedApplications := sel\<rparr>, [LoadCompanyApplications])
     | (sel, False) \<Rightarrow> (st\<lparr>selectedApplications := sel\<rparr>, [Uncaught ''TypeError'']))"

definition toggleApplicationSelection :: "string \<Rightarrow> bool \<Rightarrow> dashboard \<Rightarrow> dashboard \<times> effect list" where
  "toggleApplicationSelection appId checked st =
    (if checked
     then (st\<lparr>selectedApplications := set_add appId (selectedApplications st)\<rparr>,
           [LoadCompanyApplications])
     else (st\<lparr>selectedApplications := set_delete appId (selectedApplications st)\<rparr>,
           [LoadCompanyApplications]))"

definition clearSelection :: "dashboard \<Rightarrow> dashboard \<times> effect list" where
  "clearSelection st =
    (st\<lparr>selectedApplications := set_clear (selectedApplications st)\<rparr>,
     [LoadCompanyApplications])"

definition filterByStatus :: "string \<Rightarrow> dashboard \<Rightarrow> dashboard \<times> effect list" where
  "filterByStatus status st =
    (st\<lparr>currentStatusFilter := status,
        selectedApplications := set_clear (selectedApplications st)\<rparr>,
     [LoadCompanyApplications])"

text \<open>The three mutations of the selection set, and a sequence of them.\<close>

datatype selection_op =
    ToggleOne string bool
  | ToggleAll bool "string option list"
  | Clear

fun apply_selection_op :: "selection_op \<Rightarrow> dashboard \<Rightarrow> dashboard \<times> effect list" where
  "apply_selection_op (ToggleOne appId checked) st = toggleApplicationSelection appId checked st"
| "apply_selection_op (ToggleAll checked cbs) st = toggleSelectAll checked cbs st"
| "apply_selection_op Clear st = clearSelection st"

fun run_selection_ops :: "selection_op list \<Rightarrow> dashboard \<Rightarrow> dashboard" where
  "run_selection_ops [] st = st"
| "run_selection_ops (op # ops) st = run_selection_ops ops (fst (apply_selection_op op st))"

subsection \<open>Loading and rendering the application list\<close>

text \<open>
  An application record as the list endpoint returns it.  Only the identifier
  (\<^verbatim>\<open>_id\<close> in the source) and the status tag matter to the handlers; every other
  member travels in the extension of the record.
\<close>

record application =
  app_id :: string
  status :: string

text \<open>The five tags the dashboard offers, in the order of the filter tabs.\<close>

definition status_values :: "string list" where
  "status_values = [''pending'', ''shortlisted'', ''interviewed'', ''hired'', ''rejected'']"

text \<open>
  \<^verbatim>\<open>const filteredApps = currentStatusFilter === 'all' ? applications
       : applications.filter(app => app.status === currentStatusFilter);\<close>
\<close>

definition filteredApps :: "string \<Rightarrow> 'a application_scheme list \<Rightarrow> 'a application_scheme list" where
  "filteredApps statusFilter applications =
    (if statusFilter = ''all'' then applications
     else filter (\<lambda>app. status app = statusFilter) applications)"








subsection \<open>Status icons\<close>

definition blue_circle :: string where
  "blue_circle = [CHR 0xF0, CHR 0x9F, CHR 0x94, CHR 0xB5]"

definition yellow_heart :: string where
  "yellow_heart = [CHR 0xF0, CHR 0x9F, CHR 0x92, CHR 0x9B]"

definition purple_circle :: string where
  "purple_circle = [CHR 0xF0, CHR 0x9F, CHR 0x9F, CHR 0xA3]"

definition green_heart :: string where
  "green_heart = [CHR 0xF0, CHR 0x9F, CHR 0x92, CHR 0x9A]"

definition cross_mark :: string where
  "cross_mark = [CHR 0xE2, CHR 0x9D, CHR 0x8C]"

definition white_circle :: string where
  "white_circle = [CHR 0xE2, CHR 0x9A, CHR 0xAA]"

definition check_mark :: string where
  "check_mark = [CHR 0xE2, CHR 0x9C, CHR 0x93]"

definition icons :: "(string \<times> js_value) list" where
  "icons =
    [(''pending'', JSString blue_circle),
     (''shortlisted'', JSString yellow_heart),
     (''interviewed'', JSString purple_circle),
     (''hired'', JSString green_heart),
     (''rejected'', JSString cross_mark)]"

text \<open>\<^verbatim>\<open>return icons[status] || white_circle;\<close> on the object literal \<^verbatim>\<open>icons\<close>.\<close>

definition getStatusIcon :: "string \<Rightarrow> js_value" where
  "getStatusIcon st_tag = js_or (get_property icons st_tag) (JSString white_circle)"

subsection \<open>Opening the bulk dialog\<close>

definition bulkUpdateStatus :: "dashboard \<Rightarrow> dashboard \<times> effect list" where
  "bulkUpdateStatus st =
    (if set_size (selectedApplications st) = 0
     then (st, [ShowNotification ''No applications selected'' ''warning''])
     else (st, [AppendModal (BulkStatusModal (set_size (selectedApplications st)))]))"

subsection \<open>Status requests and their outcomes\<close>

text \<open>
  Both update paths call \<^verbatim>\<open>fetch\<close> with the same arguments: the address
  \<^verbatim>\<open>${API_URL}/company/applications/${appId}/status\<close>, the method \<^verbatim>\<open>PUT\<close>, the two
  headers, and the body \<^verbatim>\<open>JSON.stringify({ status: newStatus, note: note })\<close>.
\<close>

definition status_request :: "env \<Rightarrow> string \<Rightarrow> string \<Rightarrow> string \<Rightarrow> request" where
  "status_request e appId newStatus note =
    \<lparr>url = API_URL e @ ''/company/applications/'' @ appId @ ''/status'',
     http_method = ''PUT'',
     authorization = ''Bearer '' @ authToken e,
     content_type = ''application/json'',
     body_status = newStatus,
     body_note = note\<rparr>"

text \<open>
  \<^verbatim>\<open>document.getElementById(...)?.value || ''\<close>: the text of the note field, the empty
  string when the field is missing.
\<close>

definition note_text :: "string option \<Rightarrow> string" where
  "note_text field = (case field of None \<Rightarrow> [] | Some v \<Rightarrow> v)"

text \<open>
  What \<^verbatim>\<open>await response.json()\<close> and the read of a member of its result give: an
  exception with a message (the body is not JSON, or it is \<^verbatim>\<open>null\<close>), or the members
  of the parsed value.
\<close>

datatype body =
    BodyThrows string
  | Json "(string \<times> js_value) list"

text \<open>
  How the promise of a \<^verbatim>\<open>fetch\<close> settles: it is fulfilled with a response (whose
  \<^verbatim>\<open>ok\<close> flag tells a success status from any other), or it is rejected with an error
  carrying a message when the request fails below HTTP.
\<close>

datatype fetch_outcome =
    Responded bool body
  | Rejected string

fun is_response :: "fetch_outcome \<Rightarrow> bool" where
  "is_response (Responded ok b) = True"
| "is_response (Rejected m) = False"

fun succeeded :: "fetch_outcome \<Rightarrow> bool" where
  "succeeded (Responded ok b) = ok"
| "succeeded (Rejected m) = False"

text \<open>String concatenation \<^verbatim>\<open>'...' + v\<close> converts \<open>v\<close> to a string.\<close>

fun js_to_string :: "js_value \<Rightarrow> string" where
  "js_to_string JSUndefined = ''undefined''"
| "js_to_string (JSString s) = s"
| "js_to_string (JSFunction f) = ''function '' @ f @ ''() { [native code] }''"
| "js_to_string (JSObject n) = ''[object Object]''"

subsection \<open>Single status update\<close>

text \<open>
  \<^verbatim>\<open>updateApplicationStatus(appId, newStatus)\<close> only opens the confirmation dialog.
\<close>

definition updateApplicationStatus :: "string \<Rightarrow> string \<Rightarrow> dashboard \<Rightarrow> dashboard \<times> effect list" where
  "updateApplicationStatus appId newStatus st = (st, [AppendModal (ConfirmStatusModal appId newStatus)])"

text \<open>
  \<^verbatim>\<open>confirmStatusUpdate(appId, newStatus)\<close> sends one request and continues when its
  promise has settled; \<open>outcome\<close> is how it settled.  The handler runs from the
  confirm button of the dialog, so the dialog it removes on success is in the document.
\<close>

definition confirmStatusUpdate ::
  "env \<Rightarrow> string \<Rightarrow> string \<Rightarrow> string option \<Rightarrow> fetch_outcome \<Rightarrow> dashboard
    \<Rightarrow> dashboard \<times> effect list" where
  "confirmStatusUpdate e appId newStatus noteField outcome st =
    (st,
     Fetch (status_request e appId newStatus (note_text noteField)) #
     (case outcome of
        Responded ok b \<Rightarrow>
          (if ok then
             [ShowNotification (check_mark @ '' Status updated to '' @ newStatus) ''success'',
              ModalRemove,
              LoadCompanyApplications]
           else
             (case b of
                Json data \<Rightarrow>
                  [ShowNotification
                     (''Failed to update status: '' @
                        js_to_string (js_or (get_property data ''error'') (JSString ''Unknown error'')))
                     ''error'']
              | BodyThrows message \<Rightarrow>
                  [ShowNotification (''Failed to update status: '' @ message) ''error'']))
      | Rejected message \<Rightarrow>
          [ShowNotification (''Failed to update status: '' @ message) ''error'']))"

subsection \<open>Bulk status update\<close>

text \<open>
  \<^verbatim>\<open>confirmBulkUpdate()\<close> starts one \<^verbatim>\<open>fetch\<close> per selected id, in the iteration order
  of the set, and suspends at \<^verbatim>\<open>await Promise.all(promises)\<close>.  A run records the
  module state, how each promise has settled so far (\<open>None\<close> while pending), whether the
  handler is still suspended, and the effects so far.  The handler runs from the button
  of the bulk dialog, so the status field it reads and the dialog it removes are in the
  document; \<open>newStatus\<close> is the value of the status field.
\<close>

record bulk_run =
  bulk_state :: dashboard
  promises :: "fetch_outcome option list"
  awaiting :: bool
  trace :: "effect list"

fun is_fulfilled :: "fetch_outcome option \<Rightarrow> bool" where
  "is_fulfilled (Some (Responded ok b)) = True"
| "is_fulfilled p = False"

fun is_rejected :: "fetch_outcome option \<Rightarrow> bool" where
  "is_rejected (Some (Rejected m)) = True"
| "is_rejected p = False"

text \<open>The statements after the \<^verbatim>\<open>await\<close>, run when \<^verbatim>\<open>Promise.all\<close> is fulfilled.\<close>

definition after_await :: "bulk_run \<Rightarrow> bulk_run" where
  "after_await r =
    r\<lparr>awaiting := False,
      trace := trace r @
        [ShowNotification
           (check_mark @ '' Updated '' @
              string_of_nat (set_size (selectedApplications (bulk_state r))) @ '' application(s)'')
           ''success'',
         ModalRemove,
         LoadCompanyApplications],
      bulk_state := (bulk_state r)
        \<lparr>selectedApplications := set_clear (selectedApplications (bulk_state r))\<rparr>\<rparr>"

text \<open>The \<^verbatim>\<open>catch\<close> block, run when \<^verbatim>\<open>Promise.all\<close> is rejected.\<close>

definition catch_block :: "string \<Rightarrow> bulk_run \<Rightarrow> bulk_run" where
  "catch_block message r =
    r\<lparr>awaiting := False,
      trace := trace r @
        [ShowNotification (''Failed to update applications: '' @ message) ''error'']\<rparr>"

definition confirmBulkUpdate :: "env \<Rightarrow> string \<Rightarrow> string option \<Rightarrow> dashboard \<Rightarrow> bulk_run" where
  "confirmBulkUpdate e newStatus noteField st =
    (let started =
       \<lparr>bulk_state = st,
        promises = map (\<lambda>appId. None) (selectedApplications st),
        awaiting = True,
        trace = map (\<lambda>appId. Fetch (status_request e appId newStatus (note_text noteField)))
                  (selectedApplications st)\<rparr>
     in if promises started = [] then after_await started else started)"

text \<open>
  The promise of request \<open>i\<close> settles with \<open>outcome\<close>.  A promise settles once, so a
  second settlement of the same request is no event.  \<^verbatim>\<open>Promise.all\<close> is rejected by
  the first rejection it sees and fulfilled when every promise is fulfilled; once it has
  settled, the suspended handler has run on and later settlements reach nobody.
\<close>

definition settle :: "nat \<Rightarrow> fetch_outcome \<Rightarrow> bulk_run \<Rightarrow> bulk_run" where
  "settle i outcome r =
    (if i < length (promises r) \<and> promises r ! i = None then
       (let r' = r\<lparr>promises := (promises r)[i := Some outcome]\<rparr> in
        if awaiting r' then
          (case outcome of
             Rejected message \<Rightarrow> catch_block message r'
           | Responded ok b \<Rightarrow>
               if list_all is_fulfilled (promises r') then after_await r' else r')
        else r')
     else r)"

fun settle_all :: "(nat \<times> fetch_outcome) list \<Rightarrow> bulk_run \<Rightarrow> bulk_run" where
  "settle_all [] r = r"
| "settle_all ((i, outcome) # evs) r = settle_all evs (settle i outcome r)"


fun is_success_notification :: "effect \<Rightarrow> bool" where
  "is_success_notification (ShowNotification m t) = (t = ''success'')"
| "is_success_notification e = False"

fun is_error_notification :: "effect \<Rightarrow> bool" where
  "is_error_notification (ShowNotification m t) = (t = ''error'')"
| "is_error_notification e = False"

text \<open>
  The three situations a run can be in, for a handler started in state \<open>st\<close> that sent
  the requests \<open>fs\<close>: still suspended, with nothing but the requests done, some promise
  not fulfilled and none rejected; continued after every promise was fulfilled; or
  continued in the \<^verbatim>\<open>catch\<close> block after a rejection.
\<close>

definition run_invariant :: "dashboard \<Rightarrow> effect list \<Rightarrow> bulk_run \<Rightarrow> bool" where
  "run_invariant st fs r \<longleftrightarrow>
     (awaiting r \<and> trace r = fs \<and> bulk_state r = st
        \<and> \<not> list_all is_fulfilled (promises r) \<and> \<not> list_ex is_rejected (promises r))
   \<or> (\<not> awaiting r \<and> list_all is_fulfilled (promises r)
        \<and> bulk_state r = st\<lparr>selectedApplications := []\<rparr>
        \<and> trace r = fs @
            [ShowNotification
               (check_mark @ '' Updated '' @ string_of_nat (set_size (selectedApplications st))
                  @ '' application(s)'') ''success'',
             ModalRemove, LoadCompanyApplications])
   \<or> (\<not> awaiting r \<and> list_ex is_rejected (promises r) \<and> bulk_state r = st
        \<and> (\<exists>m. trace r = fs @
              [ShowNotification (''Failed to update applications: '' @ m) ''error'']))"

subsection \<open>Focus trap\<close>

text \<open>
  \<^verbatim>\<open>trapFocusInModal(modal)\<close> of the accessibility manager.  The model keeps the
  focused element of the document, the elements that can take focus at all (a call of
  \<^verbatim>\<open>focus()\<close> on any other element, such as a hidden input, does nothing), the
  \<^verbatim>\<open>keydown\<close> listeners registered on the modal (each closes over the first and the
  last element found when it was registered) and, for every armed observer, the element
  to focus again when the modal leaves the document.  \<open>focusableElements\<close> is the
  result of the \<^verbatim>\<open>querySelectorAll\<close> call, in document order: the descendants that
  match the selector, whether or not they can take focus.
\<close>

record key_event =
  key :: string
  shiftKey :: bool

record 'e focus_trap =
  trap_first :: 'e
  trap_last :: 'e

record 'e document =
  activeElement :: 'e
  focusable_areas :: "'e set"
  keydown_listeners :: "'e focus_trap list"
  restore_on_close :: "'e list"

text \<open>\<^verbatim>\<open>element.focus()\<close>.\<close>

definition focus :: "'e \<Rightarrow> 'e document \<Rightarrow> 'e document" where
  "focus element doc =
    (if element \<in> focusable_areas doc then doc\<lparr>activeElement := element\<rparr> else doc)"

definition trapFocusInModal :: "'e list \<Rightarrow> 'e document \<Rightarrow> 'e document" where
  "trapFocusInModal focusableElements doc =
    (if length focusableElements = 0 then doc
     else
       (let firstElement = focusableElements ! 0;
            lastElement = focusableElements ! (length focusableElements - 1);
            previouslyFocused = activeElement doc
        in (focus firstElement doc)
             \<lparr>keydown_listeners := keydown_listeners doc
                  @ [\<lparr>trap_first = firstElement, trap_last = lastElement\<rparr>],
              restore_on_close := restore_on_close doc @ [previouslyFocused]\<rparr>))"

text \<open>
  One listener handling one event; the flag records a call of \<^verbatim>\<open>preventDefault\<close>.
\<close>

definition trap_keydown ::
  "key_event \<Rightarrow> 'e document \<times> bool \<Rightarrow> 'e focus_trap \<Rightarrow> 'e document \<times> bool" where
  "trap_keydown ev s t =
    (case s of (doc, prevented) \<Rightarrow>
       if key ev = ''Tab'' then
         (if shiftKey ev \<and> activeElement doc = trap_first t
          then (focus (trap_last t) doc, True)
          else if \<not> shiftKey ev \<and> activeElement doc = trap_last t
          then (focus (trap_first t) doc, True)
          else (doc, prevented))
       else (doc, prevented))"

text \<open>
  A key press while the focus is inside the modal: the listeners run in the order of
  registration; when none of them prevented it, the default action of the Tab key moves
  the focus to the element the browser's sequential navigation gives for the focused one
  (\<open>next_in_tab_order shift\<close>, backwards when Shift is held).
\<close>

definition keydown :: "(bool \<Rightarrow> 'e \<Rightarrow> 'e) \<Rightarrow> key_event \<Rightarrow> 'e document \<Rightarrow> 'e document" where
  "keydown next_in_tab_order ev doc =
    (case foldl (trap_keydown ev) (doc, False) (keydown_listeners doc) of
       (doc', prevented) \<Rightarrow>
         if key ev = ''Tab'' \<and> \<not> prevented
         then doc'\<lparr>activeElement := next_in_tab_order (shiftKey ev) (activeElement doc')\<rparr>
         else doc')"

definition tab :: "bool \<Rightarrow> key_event" where
  "tab shift = \<lparr>key = ''Tab'', shiftKey = shift\<rparr>"

fun press_tabs :: "(bool \<Rightarrow> 'e \<Rightarrow> 'e) \<Rightarrow> bool list \<Rightarrow> 'e document \<Rightarrow> 'e document" where
  "press_tabs nav [] doc = doc"
| "press_tabs nav (shift # shifts) doc = press_tabs nav shifts (keydown nav (tab shift) doc)"

text \<open>
  Sequential navigation along a given tab order (the elements of the page that can take
  focus, as the browser orders them): Tab goes to the element after the focused one,
  Shift+Tab to the one before it.  From either end the focus goes on to the browser's
  own controls, which the model does not hold; the focus is then left where it is.
\<close>

fun successor_in :: "'e list \<Rightarrow> 'e \<Rightarrow> 'e option" where
  "successor_in (x # y # ys) a = (if x = a then Some y else successor_in (y # ys) a)"
| "successor_in ys a = None"

definition sequential_navigation :: "'e list \<Rightarrow> bool \<Rightarrow> 'e \<Rightarrow> 'e" where
  "sequential_navigation tab_order shift a =
    (case successor_in (if shift then rev tab_order else tab_order) a of
       Some b \<Rightarrow> b
     | None \<Rightarrow> a)"

section \<open>Properties\<close>

subsection \<open>Selection and filter\<close>

lemma select_each_distinct:
  "distinct sel \<Longrightarrow> distinct (fst (select_each checked cbs sel))"
proof (induction checked cbs sel rule: select_each.induct)
  case (3 checked appId cbs sel)
  then show ?case by (simp add: set_add_def set_delete_def distinct_removeAll)
qed simp_all

text \<open>
  C6.  Whatever the selection set holds and whichever tag is chosen, \<^verbatim>\<open>filterByStatus\<close>
  makes the chosen tag the active filter and leaves the selection set empty; the only
  other thing it does is to ask for the list to be loaded and rendered again.
\<close>

theorem filterByStatus_sets_filter_and_clears:
  "currentStatusFilter (fst (filterByStatus tag st)) = tag
   \<and> selectedApplications (fst (filterByStatus tag st)) = []
   \<and> set_size (selectedApplications (fst (filterByStatus tag st))) = 0
   \<and> snd (filterByStatus tag st) = [LoadCompanyApplications]"
  by (simp add: filterByStatus_def set_clear_def set_size_def)

text \<open>
  C10.  Toggling one id, select-all and clear never assign the active status filter: after
  any sequence of these operations the filter is the one the sequence started with.
\<close>

theorem selection_ops_keep_filter:
  "currentStatusFilter (run_selection_ops ops st) = currentStatusFilter st"
proof (induction ops arbitrary: st)
  case Nil
  show ?case by simp
next
  case (Cons op ops)
  have "currentStatusFilter (fst (apply_selection_op op st)) = currentStatusFilter st"
    by (cases op)
      (simp_all add: toggleApplicationSelection_def toggleSelectAll_def clearSelection_def
        split: prod.splits bool.splits)
  with Cons.IH show ?case by simp
qed

subsection \<open>Visible rows and per-status counts\<close>





text \<open>
  C7.  With the tag \<^verbatim>\<open>all\<close> the visible rows are the list itself.  With any other tag
  they are the records of the list whose status is the tag, each as often as it occurs
  and in the order of the list: a subsequence of the list that holds exactly the
  matching records.
\<close>

theorem filteredApps_identity_or_matching_sublist:
  "filteredApps ''all'' applications = applications
   \<and> (tag \<noteq> ''all'' \<longrightarrow>
        filteredApps tag applications = filter (\<lambda>app. status app = tag) applications
        \<and> subseq (filteredApps tag applications) applications
        \<and> set (filteredApps tag applications) = {a \<in> set applications. status a = tag}
        \<and> (\<forall>a. count_list (filteredApps tag applications) a
               = (if status a = tag then count_list applications a else 0)))"
proof -
  have cnt: "\<And>a. count_list (filter (\<lambda>app. status app = tag) applications) a
               = (if status a = tag then count_list applications a else 0)"
    by (induction applications) auto
  show ?thesis
    using cnt by (auto simp: filteredApps_def)
qed

theorem filteredApps_identity_or_matching_sublist_witness:
  "filteredApps ''pending''
      [\<lparr>app_id = ''a'', status = ''pending''\<rparr>, \<lparr>app_id = ''c'', status = ''hired''\<rparr>,
       \<lparr>app_id = ''b'', status = ''pending''\<rparr>]
    = [\<lparr>app_id = ''a'', status = ''pending''\<rparr>, \<lparr>app_id = ''b'', status = ''pending''\<rparr>]"
  using filteredApps_identity_or_matching_sublist
    [of "[\<lparr>app_id = ''a'', status = ''pending''\<rparr>, \<lparr>app_id = ''c'', status = ''hired''\<rparr>,
          \<lparr>app_id = ''b'', status = ''pending''\<rparr>]" "''pending''"]
  by simp

subsection \<open>Status icons\<close>

lemma getStatusIcon_known:
  "getStatusIcon ''pending'' = JSString blue_circle"
  "getStatusIcon ''shortlisted'' = JSString yellow_heart"
  "getStatusIcon ''interviewed'' = JSString purple_circle"
  "getStatusIcon ''hired'' = JSString green_heart"
  "getStatusIcon ''rejected'' = JSString cross_mark"
  by (simp_all add: getStatusIcon_def get_property_def icons_def js_or_def
      blue_circle_def yellow_heart_def purple_circle_def green_heart_def cross_mark_def)

lemma getStatusIcon_neutral_unless_inherited:
  assumes "s \<notin> set status_values" and "s \<notin> fst ` set object_prototype"
  shows "getStatusIcon s = JSString white_circle"
proof -
  have "map_of icons s = None"
    using assms(1) by (simp add: icons_def status_values_def)
  moreover have "map_of object_prototype s = None"
    using assms(2) by (simp add: map_of_eq_None_iff)
  ultimately show ?thesis
    by (simp add: getStatusIcon_def get_property_def js_or_def)
qed

text \<open>
  C8.  The status \<^verbatim>\<open>constructor\<close> is none of the five tags, yet \<^verbatim>\<open>icons[status]\<close>
  finds the member every object inherits under that name, a function, which is truthy:
  \<^verbatim>\<open>getStatusIcon\<close> returns it instead of the neutral icon.
\<close>

theorem getStatusIcon_constructor_not_neutral:
  "''constructor'' \<notin> set status_values
   \<and> getStatusIcon ''constructor'' = JSFunction ''Object''
   \<and> getStatusIcon ''constructor'' \<noteq> JSString white_circle"
  by (simp add: status_values_def getStatusIcon_def get_property_def icons_def
      object_prototype_def js_or_def)

subsection \<open>Bulk dialog with nothing selected\<close>

text \<open>
  C3.  Invoked with an empty selection set, \<^verbatim>\<open>bulkUpdateStatus\<close> shows the warning
  notification and does nothing else: no request is sent, no list reload is asked for,
  no dialog is opened, and the module state is as before.
\<close>

theorem bulkUpdateStatus_empty_selection:
  assumes "set_size (selectedApplications st) = 0"
  shows "snd (bulkUpdateStatus st) = [ShowNotification ''No applications selected'' ''warning'']
       \<and> filter is_network (snd (bulkUpdateStatus st)) = []
       \<and> fst (bulkUpdateStatus st) = st"
  using assms by (simp add: bulkUpdateStatus_def)

theorem bulkUpdateStatus_empty_selection_witness:
  "set_size (selectedApplications initial_dashboard) = 0
   \<and> snd (bulkUpdateStatus initial_dashboard)
       = [ShowNotification ''No applications selected'' ''warning'']
   \<and> filter is_network (snd (bulkUpdateStatus initial_dashboard)) = []"
proof -
  have h: "set_size (selectedApplications initial_dashboard) = 0"
    by (simp add: initial_dashboard_def set_size_def)
  show ?thesis
    using h bulkUpdateStatus_empty_selection [OF h] by simp
qed

subsection \<open>Bulk update: the join on all requests\<close>

lemma fulfilled_not_pending:
  "list_all is_fulfilled ps \<Longrightarrow> i < length ps \<Longrightarrow> ps ! i \<noteq> None"
proof
  assume a: "list_all is_fulfilled ps" "i < length ps" and n: "ps ! i = None"
  from a have "is_fulfilled (ps ! i)" by (simp add: list_all_length)
  with n show False by simp
qed

lemma rejected_update_iff:
  "i < length ps \<Longrightarrow> ps ! i = None \<Longrightarrow>
   list_ex is_rejected (ps[i := Some out]) \<longleftrightarrow> (list_ex is_rejected ps \<or> \<not> is_response out)"
proof -
  assume a: "i < length ps" "ps ! i = None"
  have "list_ex is_rejected (ps[i := Some out]) \<longleftrightarrow>
        (\<exists>j < length ps. is_rejected ((ps[i := Some out]) ! j))"
    by (simp add: list_ex_length)
  also have "\<dots> \<longleftrightarrow> (\<exists>j < length ps. (if j = i then is_rejected (Some out) else is_rejected (ps ! j)))"
    using a by (intro ex_cong) (auto simp: nth_list_update)
  also have "\<dots> \<longleftrightarrow> (is_rejected (Some out) \<or> (\<exists>j < length ps. is_rejected (ps ! j)))"
    using a by (metis is_rejected.simps(2))
  finally show ?thesis
    by (cases out) (auto simp: list_ex_length)
qed

lemma settle_invariant:
  assumes "run_invariant st fs r"
  shows "run_invariant st fs (settle i out r)"
proof (cases "i < length (promises r) \<and> promises r ! i = None")
  case False
  then have "settle i out r = r" by (auto simp: settle_def)
  then show ?thesis using assms by simp
next
  case True
  then have i: "i < length (promises r)" and pend: "promises r ! i = None" by simp_all
  have not_all: "\<not> list_all is_fulfilled (promises r)"
    using fulfilled_not_pending [OF _ i] pend by blast
  show ?thesis
  proof (cases "awaiting r")
    case False
    with assms not_all have rej: "list_ex is_rejected (promises r)" and
      rest: "bulk_state r = st"
        "\<exists>m. trace r = fs @ [ShowNotification (''Failed to update applications: '' @ m) ''error'']"
      by (auto simp: run_invariant_def)
    have "list_ex is_rejected ((promises r)[i := Some out])"
      using rejected_update_iff [OF i pend] rej by simp
    with False rest True show ?thesis
      by (simp add: settle_def run_invariant_def Let_def)
  next
    case aw: True
    with assms have base: "trace r = fs" "bulk_state r = st" "\<not> list_ex is_rejected (promises r)"
      by (auto simp: run_invariant_def)
    show ?thesis
    proof (cases out)
      case (Rejected m)
      have "list_ex is_rejected ((promises r)[i := Some out])"
        using rejected_update_iff [OF i pend] Rejected by simp
      with aw base True Rejected show ?thesis
        by (simp add: settle_def run_invariant_def Let_def catch_block_def)
    next
      case (Responded ok b)
      have norej: "\<not> list_ex is_rejected ((promises r)[i := Some out])"
        using rejected_update_iff [OF i pend] Responded base by simp
      show ?thesis
      proof (cases "list_all is_fulfilled ((promises r)[i := Some out])")
        case all: True
        with aw base True Responded show ?thesis
          by (simp add: settle_def run_invariant_def Let_def after_await_def set_clear_def)
      next
        case False
        with aw base True Responded norej show ?thesis
          by (simp add: settle_def run_invariant_def Let_def)
      qed
    qed
  qed
qed

lemma settle_all_invariant:
  "run_invariant st fs r \<Longrightarrow> run_invariant st fs (settle_all evs r)"
proof (induction evs arbitrary: r)
  case Nil
  then show ?case by simp
next
  case (Cons ev evs)
  obtain i out where ev: "ev = (i, out)" by (cases ev)
  from Cons.prems have "run_invariant st fs (settle i out r)" by (rule settle_invariant)
  then show ?case using Cons.IH ev by simp
qed

lemma confirmBulkUpdate_invariant:
  assumes "selectedApplications st \<noteq> []"
  shows "run_invariant st
           (map (\<lambda>appId. Fetch (status_request e appId newStatus (note_text noteField)))
              (selectedApplications st))
           (confirmBulkUpdate e newStatus noteField st)"
proof -
  obtain a as where sel: "selectedApplications st = a # as"
    using assms by (cases "selectedApplications st") auto
  show ?thesis
    by (simp add: confirmBulkUpdate_def Let_def run_invariant_def sel list_ex_iff)
qed

lemma settle_length: "length (promises (settle i out r)) = length (promises r)"
  by (simp add: settle_def Let_def catch_block_def after_await_def split: fetch_outcome.splits)

lemma settle_all_length: "length (promises (settle_all evs r)) = length (promises r)"
  by (induction evs arbitrary: r) (auto simp: settle_length)


lemma settle_promises:
  "promises (settle i out r) =
    (if i < length (promises r) \<and> promises r ! i = None
     then (promises r)[i := Some out] else promises r)"
  by (simp add: settle_def Let_def catch_block_def after_await_def split: fetch_outcome.splits)

lemma settle_settles:
  "i < length (promises r) \<Longrightarrow> promises (settle i out r) ! i \<noteq> None"
  by (simp add: settle_promises)

lemma settle_keeps_settled:
  "promises r ! j \<noteq> None \<Longrightarrow> promises (settle i out r) ! j \<noteq> None"
  by (cases "j = i") (auto simp: settle_promises)

lemma settle_all_keeps_settled:
  "promises r ! j \<noteq> None \<Longrightarrow> promises (settle_all evs r) ! j \<noteq> None"
proof (induction evs arbitrary: r)
  case Nil
  then show ?case by simp
next
  case (Cons ev evs)
  obtain i out where ev: "ev = (i, out)" by (cases ev)
  from Cons.prems have "promises (settle i out r) ! j \<noteq> None"
    by (rule settle_keeps_settled)
  then have "promises (settle_all evs (settle i out r)) ! j \<noteq> None"
    by (rule Cons.IH)
  then show ?case using ev by simp
qed

lemma settle_all_settles:
  "(i, out) \<in> set evs \<Longrightarrow> i < length (promises r) \<Longrightarrow> promises (settle_all evs r) ! i \<noteq> None"
proof (induction evs arbitrary: r)
  case Nil
  then show ?case by simp
next
  case (Cons ev evs)
  obtain j o' where ev: "ev = (j, o')" by (cases ev)
  show ?case
  proof (cases "ev = (i, out)")
    case True
    then have "promises (settle i out r) ! i \<noteq> None"
      using Cons.prems(2) by (simp add: settle_settles)
    then show ?thesis using True by (simp add: settle_all_keeps_settled)
  next
    case False
    then have "(i, out) \<in> set evs" using Cons.prems(1) by simp
    moreover have "i < length (promises (settle j o' r))"
      using Cons.prems(2) by (simp add: settle_length)
    ultimately show ?thesis using Cons.IH ev by simp
  qed
qed

lemma settle_responses_not_rejected:
  assumes "is_response out" and "\<not> list_ex is_rejected (promises r)"
  shows "\<not> list_ex is_rejected (promises (settle i out r))"
proof (cases "i < length (promises r) \<and> promises r ! i = None")
  case True
  then show ?thesis
    using assms rejected_update_iff [of i "promises r" out] by (simp add: settle_promises)
next
  case False
  then have "promises (settle i out r) = promises r" by (auto simp: settle_promises)
  then show ?thesis using assms by simp
qed

lemma settle_all_responses_not_rejected:
  "\<forall>ev \<in> set evs. is_response (snd ev) \<Longrightarrow> \<not> list_ex is_rejected (promises r)
   \<Longrightarrow> \<not> list_ex is_rejected (promises (settle_all evs r))"
proof (induction evs arbitrary: r)
  case Nil
  then show ?case by simp
next
  case (Cons ev evs)
  obtain j o' where ev: "ev = (j, o')" by (cases ev)
  have "\<not> list_ex is_rejected (promises (settle j o' r))"
    using Cons.prems ev by (simp add: settle_responses_not_rejected)
  then show ?case using Cons.IH Cons.prems(1) ev by simp
qed

lemma fulfilled_iff:
  "list_all is_fulfilled ps \<longleftrightarrow> (\<forall>j < length ps. ps ! j \<noteq> None) \<and> \<not> list_ex is_rejected ps"
proof -
  have "\<And>p. is_fulfilled p \<longleftrightarrow> p \<noteq> None \<and> \<not> is_rejected p"
  proof -
    fix p show "is_fulfilled p \<longleftrightarrow> p \<noteq> None \<and> \<not> is_rejected p"
      by (cases p rule: is_fulfilled.cases) simp_all
  qed
  then show ?thesis
    by (auto simp: list_all_length list_ex_length)
qed


lemma fetches_only:
  "LoadCompanyApplications \<notin> set (map (\<lambda>a. Fetch (f a)) xs)"
  "\<not> list_ex is_success_notification (map (\<lambda>a. Fetch (f a)) xs)"
  "\<not> list_ex is_error_notification (map (\<lambda>a. Fetch (f a)) xs)"
  by (induction xs) auto




text \<open>
  C2 (as amended).  For a confirmed bulk update over a non-empty selection: when every
  request is answered, with a success status or not, all promises are fulfilled; when
  all promises are fulfilled the selection set is empty, the filter is untouched and the
  handler has ended by asking for the list to be loaded and rendered again; and when
  some promise is rejected the module state is as before and no reload is asked for,
  only a failure notification is shown.
\<close>

theorem bulk_update_completion:
  assumes "selectedApplications st \<noteq> []"
  shows "((\<forall>ev \<in> set evs. is_response (snd ev))
          \<and> (\<forall>i < length (selectedApplications st). i \<in> fst ` set evs)
          \<longrightarrow> list_all is_fulfilled (promises (settle_all evs (confirmBulkUpdate e newStatus noteField st))))
       \<and> (list_all is_fulfilled (promises (settle_all evs (confirmBulkUpdate e newStatus noteField st)))
          \<longrightarrow> selectedApplications (bulk_state (settle_all evs (confirmBulkUpdate e newStatus noteField st))) = []
            \<and> currentStatusFilter (bulk_state (settle_all evs (confirmBulkUpdate e newStatus noteField st)))
                = currentStatusFilter st
            \<and> last (trace (settle_all evs (confirmBulkUpdate e newStatus noteField st)))
                = LoadCompanyApplications
            \<and> LoadCompanyApplications
                \<in> set (trace (settle_all evs (confirmBulkUpdate e newStatus noteField st))))
       \<and> (list_ex is_rejected (promises (settle_all evs (confirmBulkUpdate e newStatus noteField st)))
          \<longrightarrow> bulk_state (settle_all evs (confirmBulkUpdate e newStatus noteField st)) = st
            \<and> LoadCompanyApplications
                \<notin> set (trace (settle_all evs (confirmBulkUpdate e newStatus noteField st)))
            \<and> list_ex is_error_notification
                (trace (settle_all evs (confirmBulkUpdate e newStatus noteField st))))"
proof -
  let ?fs = "map (\<lambda>appId. Fetch (status_request e appId newStatus (note_text noteField)))
               (selectedApplications st)"
  let ?C = "confirmBulkUpdate e newStatus noteField st"
  let ?R = "settle_all evs ?C"
  have inv: "run_invariant st ?fs ?R"
    using assms by (intro settle_all_invariant confirmBulkUpdate_invariant)
  have start: "promises ?C = map (\<lambda>appId. None) (selectedApplications st)"
    using assms by (simp add: confirmBulkUpdate_def Let_def)
  have progress: "list_all is_fulfilled (promises ?R)"
    if resp: "\<forall>ev \<in> set evs. is_response (snd ev)"
      and every: "\<forall>i < length (selectedApplications st). i \<in> fst ` set evs"
  proof -
    have "\<not> list_ex is_rejected (promises ?C)"
      by (simp add: start list_ex_iff)
    then have norej: "\<not> list_ex is_rejected (promises ?R)"
      using resp by (rule settle_all_responses_not_rejected [rotated])
    have "promises ?R ! j \<noteq> None" if "j < length (promises ?R)" for j
    proof -
      from that have j: "j < length (selectedApplications st)"
        by (simp add: settle_all_length start)
      with every obtain out where "(j, out) \<in> set evs" by force
      moreover have "j < length (promises ?C)" using j by (simp add: start)
      ultimately show ?thesis by (rule settle_all_settles)
    qed
    with norej show ?thesis by (simp add: fulfilled_iff)
  qed
  have cleared: "selectedApplications (bulk_state ?R) = []
      \<and> currentStatusFilter (bulk_state ?R) = currentStatusFilter st
      \<and> last (trace ?R) = LoadCompanyApplications
      \<and> LoadCompanyApplications \<in> set (trace ?R)"
    if "list_all is_fulfilled (promises ?R)"
    using inv that by (auto simp: run_invariant_def fulfilled_iff)
  have failed: "bulk_state ?R = st \<and> LoadCompanyApplications \<notin> set (trace ?R)
      \<and> list_ex is_error_notification (trace ?R)"
    if "list_ex is_rejected (promises ?R)"
    using inv that fetches_only(1) [of "\<lambda>a. status_request e a newStatus (note_text noteField)"]
    by (auto simp: run_invariant_def fulfilled_iff)
  from progress cleared failed show ?thesis by blast
qed

text \<open>
  Two selected ids, one answered with a refusal and one with a success: the selection
  set is empty afterwards and the list is reloaded.
\<close>

theorem bulk_update_completion_witness:
  "selectedApplications (bulk_state (settle_all
      [(1, Responded False (Json [(''error'', JSString ''Forbidden'')])), (0, Responded True (Json []))]
      (confirmBulkUpdate \<lparr>API_URL = ''/api'', authToken = ''t''\<rparr> ''shortlisted'' (Some ''ok'')
         \<lparr>selectedApplications = [''a'', ''b''], currentStatusFilter = ''pending''\<rparr>))) = []
   \<and> LoadCompanyApplications \<in> set (trace (settle_all
      [(1, Responded False (Json [(''error'', JSString ''Forbidden'')])), (0, Responded True (Json []))]
      (confirmBulkUpdate \<lparr>API_URL = ''/api'', authToken = ''t''\<rparr> ''shortlisted'' (Some ''ok'')
         \<lparr>selectedApplications = [''a'', ''b''], currentStatusFilter = ''pending''\<rparr>)))"
proof -
  let ?st = "\<lparr>selectedApplications = [''a'', ''b''], currentStatusFilter = ''pending''\<rparr>"
  let ?evs = "[(1::nat, Responded False (Json [(''error'', JSString ''Forbidden'')])),
               (0, Responded True (Json []))]"
  have h: "selectedApplications ?st \<noteq> []" by simp
  have resp: "\<forall>ev \<in> set ?evs. is_response (snd ev)" by simp
  have every: "\<forall>i < length (selectedApplications ?st). i \<in> fst ` set ?evs"
    by (auto simp: less_Suc_eq)
  from bulk_update_completion [OF h, of ?evs "\<lparr>API_URL = ''/api'', authToken = ''t''\<rparr>"
      "''shortlisted''" "Some ''ok''"] resp every
  show ?thesis by blast
qed

text \<open>
  Against C2 as stated: one id selected and its request rejected.  Every request has
  settled, yet the selection set still holds the id and no reload was asked for.
\<close>

theorem bulk_rejection_keeps_selection:
  "list_all (\<lambda>p. p \<noteq> None) (promises (settle 0 (Rejected ''Failed to fetch'')
      (confirmBulkUpdate \<lparr>API_URL = ''/api'', authToken = ''t''\<rparr> ''hired'' None
         \<lparr>selectedApplications = [''a''], currentStatusFilter = ''all''\<rparr>)))
   \<and> selectedApplications (bulk_state (settle 0 (Rejected ''Failed to fetch'')
      (confirmBulkUpdate \<lparr>API_URL = ''/api'', authToken = ''t''\<rparr> ''hired'' None
         \<lparr>selectedApplications = [''a''], currentStatusFilter = ''all''\<rparr>))) = [''a'']
   \<and> LoadCompanyApplications \<notin> set (trace (settle 0 (Rejected ''Failed to fetch'')
      (confirmBulkUpdate \<lparr>API_URL = ''/api'', authToken = ''t''\<rparr> ''hired'' None
         \<lparr>selectedApplications = [''a''], currentStatusFilter = ''all''\<rparr>)))"
  by (simp add: confirmBulkUpdate_def settle_def catch_block_def Let_def)

subsection \<open>Single update: failures\<close>

text \<open>
  C4.  When the single status update fails (the response is not a success, or the
  request is rejected below HTTP) the module state is as before, the list is not
  reloaded, the dialog stays, and exactly one notification is shown, of type
  \<^verbatim>\<open>error\<close>, whose text starts with \<^verbatim>\<open>Failed to update status: \<close>.  The text continues
  with the \<^verbatim>\<open>error\<close> member of the parsed body when that is a non-empty string, with
  \<^verbatim>\<open>Unknown error\<close> when the body parses without one, and with the message of the
  exception when the body cannot be read or the request itself failed.
\<close>

theorem confirmStatusUpdate_failure:
  assumes "\<not> succeeded outcome"
  shows "fst (confirmStatusUpdate e appId newStatus noteField outcome st) = st
       \<and> LoadCompanyApplications \<notin> set (snd (confirmStatusUpdate e appId newStatus noteField outcome st))
       \<and> ModalRemove \<notin> set (snd (confirmStatusUpdate e appId newStatus noteField outcome st))
       \<and> (\<exists>detail. filter is_notification (snd (confirmStatusUpdate e appId newStatus noteField outcome st))
             = [ShowNotification (''Failed to update status: '' @ detail) ''error''])
       \<and> (\<forall>ok data message. outcome = Responded ok (Json data)
             \<and> get_property data ''error'' = JSString message \<and> message \<noteq> []
           \<longrightarrow> filter is_notification (snd (confirmStatusUpdate e appId newStatus noteField outcome st))
             = [ShowNotification (''Failed to update status: '' @ message) ''error''])
       \<and> (\<forall>ok data. outcome = Responded ok (Json data) \<and> \<not> truthy (get_property data ''error'')
           \<longrightarrow> filter is_notification (snd (confirmStatusUpdate e appId newStatus noteField outcome st))
             = [ShowNotification ''Failed to update status: Unknown error'' ''error''])
       \<and> (\<forall>ok message. outcome = Responded ok (BodyThrows message) \<or> outcome = Rejected message
           \<longrightarrow> filter is_notification (snd (confirmStatusUpdate e appId newStatus noteField outcome st))
             = [ShowNotification (''Failed to update status: '' @ message) ''error''])"
proof (cases outcome)
  case (Rejected m)
  then show ?thesis by (simp add: confirmStatusUpdate_def)
next
  case (Responded ok b)
  with assms have ok: "\<not> ok" by simp
  show ?thesis
  proof (cases b)
    case (BodyThrows m)
    with Responded ok show ?thesis by (simp add: confirmStatusUpdate_def)
  next
    case (Json data)
    with Responded ok show ?thesis by (auto simp: confirmStatusUpdate_def js_or_def)
  qed
qed

text \<open>
  A refused update: the server answers with a non-success status and the body
  \<^verbatim>\<open>{"error": "Forbidden"}\<close>.
\<close>

theorem confirmStatusUpdate_failure_witness:
  "\<not> succeeded (Responded False (Json [(''error'', JSString ''Forbidden'')]))
   \<and> snd (confirmStatusUpdate \<lparr>API_URL = ''/api'', authToken = ''t''\<rparr> ''a'' ''hired'' None
        (Responded False (Json [(''error'', JSString ''Forbidden'')]))
        \<lparr>selectedApplications = [], currentStatusFilter = ''all''\<rparr>)
     = [Fetch (status_request \<lparr>API_URL = ''/api'', authToken = ''t''\<rparr> ''a'' ''hired'' []),
        ShowNotification ''Failed to update status: Forbidden'' ''error'']
   \<and> filter is_notification
       (snd (confirmStatusUpdate \<lparr>API_URL = ''/api'', authToken = ''t''\<rparr> ''a'' ''hired'' None
        (Responded False (Json [(''error'', JSString ''Forbidden'')]))
        \<lparr>selectedApplications = [], currentStatusFilter = ''all''\<rparr>))
     = [ShowNotification ''Failed to update status: Forbidden'' ''error'']"
proof -
  have h: "\<not> succeeded (Responded False (Json [(''error'', JSString ''Forbidden'')]))" by simp
  have g: "get_property [(''error'', JSString ''Forbidden'')] ''error'' = JSString ''Forbidden''"
    by (simp add: get_property_def)
  have run: "snd (confirmStatusUpdate \<lparr>API_URL = ''/api'', authToken = ''t''\<rparr> ''a'' ''hired'' None
        (Responded False (Json [(''error'', JSString ''Forbidden'')]))
        \<lparr>selectedApplications = [], currentStatusFilter = ''all''\<rparr>)
     = [Fetch (status_request \<lparr>API_URL = ''/api'', authToken = ''t''\<rparr> ''a'' ''hired'' []),
        ShowNotification ''Failed to update status: Forbidden'' ''error'']"
    by (simp add: confirmStatusUpdate_def get_property_def js_or_def note_text_def)
  from confirmStatusUpdate_failure [OF h, of "\<lparr>API_URL = ''/api'', authToken = ''t''\<rparr>" "''a''"
      "''hired''" None "\<lparr>selectedApplications = [], currentStatusFilter = ''all''\<rparr>"] g h run
  show ?thesis by simp
qed

subsection \<open>Focus trap\<close>

lemma focus_idem: "focus x (focus x doc) = focus x doc"
  by (simp add: focus_def)

lemma focus_fields:
  "keydown_listeners (focus x doc) = keydown_listeners doc"
  "focusable_areas (focus x doc) = focusable_areas doc"
  "restore_on_close (focus x doc) = restore_on_close doc"
  "activeElement (focus x doc) = (if x \<in> focusable_areas doc then x else activeElement doc)"
  by (simp_all add: focus_def)

text \<open>
  With one listener registered, a Tab press is handled by the listener at the two ends
  of the list and by the browser everywhere else.
\<close>

lemma keydown_single_trap:
  assumes "keydown_listeners doc = [\<lparr>trap_first = f, trap_last = l\<rparr>]"
  shows "keydown nav (tab shift) doc =
     (if shift \<and> activeElement doc = f then focus l doc
      else if \<not> shift \<and> activeElement doc = l then focus f doc
      else doc\<lparr>activeElement := nav shift (activeElement doc)\<rparr>)"
  using assms by (simp add: keydown_def trap_keydown_def tab_def)

text \<open>
  What holds of the trap when the first and the last matched element can take focus:
  the trap focuses the first, Tab on the last leads to the first and Shift+Tab on the
  first leads to the last.
\<close>

lemma trap_wraps_when_ends_take_focus:
  assumes "focusable \<noteq> []" and "keydown_listeners doc = []"
    and "hd focusable \<in> focusable_areas doc" and "last focusable \<in> focusable_areas doc"
  shows "activeElement (trapFocusInModal focusable doc) = hd focusable"
    and "activeElement (keydown nav (tab False)
            ((trapFocusInModal focusable doc)\<lparr>activeElement := last focusable\<rparr>)) = hd focusable"
    and "activeElement (keydown nav (tab True)
            ((trapFocusInModal focusable doc)\<lparr>activeElement := hd focusable\<rparr>)) = last focusable"
proof -
  let ?t = "trapFocusInModal focusable doc"
  have ends: "focusable ! 0 = hd focusable" "focusable ! (length focusable - 1) = last focusable"
    using assms(1) by (simp_all add: hd_conv_nth last_conv_nth)
  have ls: "keydown_listeners ?t = [\<lparr>trap_first = hd focusable, trap_last = last focusable\<rparr>]"
    using assms(1,2) ends by (simp add: trapFocusInModal_def Let_def focus_fields)
  have areas: "focusable_areas ?t = focusable_areas doc"
    using assms(1) by (simp add: trapFocusInModal_def Let_def focus_fields)
  show "activeElement ?t = hd focusable"
    using assms(1,3) ends by (simp add: trapFocusInModal_def Let_def focus_fields)
  show "activeElement (keydown nav (tab False) (?t\<lparr>activeElement := last focusable\<rparr>)) = hd focusable"
    using keydown_single_trap [of "?t\<lparr>activeElement := last focusable\<rparr>" _ _ nav False]
      ls areas assms(3) by (simp add: focus_fields)
  show "activeElement (keydown nav (tab True) (?t\<lparr>activeElement := hd focusable\<rparr>)) = last focusable"
    using keydown_single_trap [of "?t\<lparr>activeElement := hd focusable\<rparr>" _ _ nav True]
      ls areas assms(4) by (simp add: focus_fields)
qed

text \<open>A modal without a matched descendant: nothing is focused and nothing registered.\<close>

lemma trapFocusInModal_no_focusable: "trapFocusInModal [] doc = doc"
  by (simp add: trapFocusInModal_def)

text \<open>
  Where a single trap is registered and the browser's sequential navigation steps
  through the matched elements in their order, a Tab or Shift+Tab press with the focus
  on a matched element leaves it on a matched element, and so does any sequence of such
  presses.
\<close>

lemma keydown_stays_inside:
  assumes xs: "xs \<noteq> []"
    and ls: "keydown_listeners doc = [\<lparr>trap_first = xs ! 0, trap_last = xs ! (length xs - 1)\<rparr>]"
    and nav: "\<forall>i. Suc i < length xs \<longrightarrow>
                nav False (xs ! i) = xs ! Suc i \<and> nav True (xs ! Suc i) = xs ! i"
    and inside: "activeElement doc \<in> set xs"
  shows "activeElement (keydown nav (tab shift) doc) \<in> set xs
       \<and> keydown_listeners (keydown nav (tab shift) doc) = keydown_listeners doc"
proof -
  from inside obtain i where i: "i < length xs" "xs ! i = activeElement doc"
    by (auto simp: in_set_conv_nth)
  have first: "xs ! 0 \<in> set xs" and last: "xs ! (length xs - 1) \<in> set xs"
    using xs by simp_all
  have step: "keydown nav (tab shift) doc =
     (if shift \<and> activeElement doc = xs ! 0 then focus (xs ! (length xs - 1)) doc
      else if \<not> shift \<and> activeElement doc = xs ! (length xs - 1) then focus (xs ! 0) doc
      else doc\<lparr>activeElement := nav shift (activeElement doc)\<rparr>)"
    using ls by (rule keydown_single_trap)
  have forward: "nav False (activeElement doc) \<in> set xs"
    if "activeElement doc \<noteq> xs ! (length xs - 1)"
  proof -
    from that i have "i \<noteq> length xs - 1" by auto
    with i have "Suc i < length xs" by simp
    with nav i show ?thesis by (metis nth_mem)
  qed
  have backward: "nav True (activeElement doc) \<in> set xs"
    if "activeElement doc \<noteq> xs ! 0"
  proof -
    from that i obtain j where j: "i = Suc j" by (cases i) auto
    with i have sj: "Suc j < length xs" by simp
    with nav have "nav True (xs ! Suc j) = xs ! j" by blast
    moreover have "xs ! j \<in> set xs" using sj by simp
    ultimately show ?thesis using i j by simp
  qed
  show ?thesis
    unfolding step using first last forward backward inside
    by (cases shift) (auto simp: focus_fields)
qed

lemma press_tabs_stay_inside:
  assumes "xs \<noteq> []"
    and "keydown_listeners doc = [\<lparr>trap_first = xs ! 0, trap_last = xs ! (length xs - 1)\<rparr>]"
    and "\<forall>i. Suc i < length xs \<longrightarrow>
                nav False (xs ! i) = xs ! Suc i \<and> nav True (xs ! Suc i) = xs ! i"
    and "activeElement doc \<in> set xs"
  shows "activeElement (press_tabs nav shifts doc) \<in> set xs"
  using assms
proof (induction shifts arbitrary: doc)
  case Nil
  then show ?case by simp
next
  case (Cons shift shifts)
  from keydown_stays_inside [OF Cons.prems, of shift]
  have "activeElement (keydown nav (tab shift) doc) \<in> set xs"
    and "keydown_listeners (keydown nav (tab shift) doc)
          = [\<lparr>trap_first = xs ! 0, trap_last = xs ! (length xs - 1)\<rparr>]"
    using Cons.prems(2) by simp_all
  with Cons.IH [OF Cons.prems(1) _ Cons.prems(3)] show ?case by simp
qed

text \<open>
  C9.  A modal that holds a hidden input (element 1) followed by two buttons (2 and 3),
  opened while a button of the page (element 0) has the focus.  The selector matches all
  three descendants, the hidden input first, but a hidden input cannot take focus.  The
  trap is registered, yet the focus stays on the page's button, outside the modal.  With
  the focus on the last matched element, Tab is intercepted and the focus stays on that
  element instead of moving to the first.  With the focus on the first button, Shift+Tab
  is not intercepted, because that button is not the first matched element, and the
  browser moves the focus to the element before it in the tab order: the page's button.
\<close>

theorem focus_trap_hidden_input_first:
  "keydown_listeners (trapFocusInModal [1, 2, 3 :: nat]
      \<lparr>activeElement = 0, focusable_areas = {0, 2, 3},
       keydown_listeners = [], restore_on_close = []\<rparr>)
     = [\<lparr>trap_first = 1, trap_last = 3\<rparr>]
   \<and> activeElement (trapFocusInModal [1, 2, 3 :: nat]
      \<lparr>activeElement = 0, focusable_areas = {0, 2, 3},
       keydown_listeners = [], restore_on_close = []\<rparr>) = 0
   \<and> activeElement (keydown (sequential_navigation [0, 2, 3]) (tab False)
      ((trapFocusInModal [1, 2, 3 :: nat]
          \<lparr>activeElement = 0, focusable_areas = {0, 2, 3},
           keydown_listeners = [], restore_on_close = []\<rparr>)
        \<lparr>activeElement := 3\<rparr>)) = 3
   \<and> activeElement (keydown (sequential_navigation [0, 2, 3]) (tab True)
      ((trapFocusInModal [1, 2, 3 :: nat]
          \<lparr>activeElement = 0, focusable_areas = {0, 2, 3},
           keydown_listeners = [], restore_on_close = []\<rparr>)
        \<lparr>activeElement := 2\<rparr>)) = 0
   \<and> 0 \<notin> set [1, 2, 3 :: nat]"
  by (simp add: trapFocusInModal_def focus_def keydown_def trap_keydown_def tab_def
      sequential_navigation_def Let_def)

end
